theory Spec2Isabelle
  imports Main "HOL-Library.Multiset" "HOL-Library.Product_Lexorder"
begin

section \<open>Supermarket sales API: catalog, ledger and daily report\<close>

text \<open>
  The development embeds the request handlers of \<^verbatim>\<open>app/main.py\<close> and the two tables
  of \<^verbatim>\<open>app/models.py\<close>. A handler is a function from the application state to a
  result and the state after it; an exception is the \<open>Inl\<close> branch of the result. The
  relational store behind the ORM session is the default of \<^verbatim>\<open>app/database.py\<close>, SQLite:
  a pair of tables, each a list of rows in insertion order, over the column types
  \<^verbatim>\<open>models.py\<close> declares (\<^verbatim>\<open>Integer\<close>, \<^verbatim>\<open>Float\<close> a Python \<open>float\<close>, \<^verbatim>\<open>String\<close>,
  \<^verbatim>\<open>DateTime\<close> a naive \<open>datetime\<close>). An integer the program hands to the store must be a
  signed 64-bit value: binding any other Python \<open>int\<close> raises \<open>OverflowError\<close>. What the
  program leaves to its platform is an input of the handler that depends on it: the two
  clock reads \<^verbatim>\<open>datetime.utcnow()\<close> and \<^verbatim>\<open>date.today()\<close>, the order in which the store
  returns the rows of a query that has no \<^verbatim>\<open>ORDER BY\<close>, and the algorithm of the
  interpreter's \<open>sum\<close>.
\<close>

subsection \<open>Python \<open>date\<close>, \<open>time\<close> and naive \<open>datetime\<close>\<close>

record pydate =
  year :: nat
  month :: nat
  day :: nat

record pytime =
  hour :: nat
  minute :: nat
  second :: nat
  microsecond :: nat

record pydatetime =
  dt_date :: pydate
  dt_time :: pytime

text \<open>The range Python's \<open>time\<close> constructor enforces on its fields.\<close>

definition valid_time :: "pytime \<Rightarrow> bool" where
  "valid_time t \<longleftrightarrow> hour t < 24 \<and> minute t < 60 \<and> second t < 60 \<and> microsecond t < 1000000"

text \<open>\<^verbatim>\<open>datetime.min.time()\<close> and \<^verbatim>\<open>datetime.max.time()\<close>.\<close>

definition datetime_min_time :: pytime where
  "datetime_min_time = \<lparr>hour = 0, minute = 0, second = 0, microsecond = 0\<rparr>"

definition datetime_max_time :: pytime where
  "datetime_max_time = \<lparr>hour = 23, minute = 59, second = 59, microsecond = 999999\<rparr>"

definition datetime_combine :: "pydate \<Rightarrow> pytime \<Rightarrow> pydatetime" where
  "datetime_combine d t = \<lparr>dt_date = d, dt_time = t\<rparr>"

text \<open>
  Naive datetimes compare field by field, year first, microsecond last. The key of a
  datetime is the tuple of its fields under the lexicographic order.
\<close>

definition date_key :: "pydate \<Rightarrow> nat \<times> nat \<times> nat" where
  "date_key d = (year d, month d, day d)"

definition time_key :: "pytime \<Rightarrow> nat \<times> nat \<times> nat \<times> nat" where
  "time_key t = (hour t, minute t, second t, microsecond t)"

definition datetime_key :: "pydatetime \<Rightarrow> (nat \<times> nat \<times> nat) \<times> (nat \<times> nat \<times> nat \<times> nat)" where
  "datetime_key x = (date_key (dt_date x), time_key (dt_time x))"

definition datetime_le :: "pydatetime \<Rightarrow> pydatetime \<Rightarrow> bool" where
  "datetime_le a b \<longleftrightarrow> datetime_key a \<le> datetime_key b"

subsection \<open>Python \<open>float\<close>: IEEE 754 binary64, round to nearest, ties to even\<close>

text \<open>
  \<open>Finite s m e\<close> is the double \<open>(-1)\<^sup>s \<cdot> m \<cdot> 2\<^sup>e\<close> with \<open>m < 2\<^sup>5\<^sup>3\<close> and
  \<open>-1074 \<le> e \<le> 971\<close>, the exponent the least possible one for the value (so every
  double has one representation; zero is \<open>Finite s 0 (-1074)\<close>).
\<close>

datatype pyfloat = Finite bool nat int | Infinity bool | NaN

datatype error = HTTPException nat string | OverflowError | ValidationError

fun bit_length :: "nat \<Rightarrow> nat" where
  "bit_length n = (if n = 0 then 0 else Suc (bit_length (n div 2)))"

declare bit_length.simps [simp del]

text \<open>\<open>m / 2\<^sup>k\<close> rounded to the nearest integer, a tie to the even one.\<close>

definition round_half_even :: "nat \<Rightarrow> nat \<Rightarrow> nat" where
  "round_half_even m k =
     (let d = m div 2 ^ k; r = m mod 2 ^ k
      in if 2 ^ k < 2 * r \<or> (2 * r = 2 ^ k \<and> odd d) then d + 1 else d)"

text \<open>The double nearest to \<open>(-1)\<^sup>s \<cdot> m \<cdot> 2\<^sup>e\<close>; an infinity when that is out of range.\<close>

definition round_double :: "bool \<Rightarrow> nat \<Rightarrow> int \<Rightarrow> pyfloat" where
  "round_double s m e =
     (let q = max (e + int (bit_length m) - 53) (- 1074);
          m' = (if q \<le> e then m * 2 ^ nat (e - q) else round_half_even m (nat (q - e)));
          q' = (if m' = 2 ^ 53 then q + 1 else q);
          m'' = (if m' = 2 ^ 53 then 2 ^ 52 else m')
      in if m'' = 0 then Finite s 0 (- 1074)
         else if 971 < q' then Infinity s
         else Finite s m'' q')"

text \<open>
  \<open>float(n)\<close> as the arithmetic operators convert an \<open>int\<close> operand: the nearest
  double, and \<open>OverflowError\<close> (``int too large to convert to float'') when that is
  not finite.
\<close>

definition float_of_int :: "int \<Rightarrow> error + pyfloat" where
  "float_of_int n =
     (case round_double (n < 0) (nat \<bar>n\<bar>) 0 of
        Infinity _ \<Rightarrow> Inl OverflowError
      | x \<Rightarrow> Inr x)"

fun float_mul :: "pyfloat \<Rightarrow> pyfloat \<Rightarrow> pyfloat" where
  "float_mul NaN _ = NaN"
| "float_mul _ NaN = NaN"
| "float_mul (Infinity s) (Infinity t) = Infinity (s \<noteq> t)"
| "float_mul (Infinity s) (Finite t n f) = (if n = 0 then NaN else Infinity (s \<noteq> t))"
| "float_mul (Finite s m e) (Infinity t) = (if m = 0 then NaN else Infinity (s \<noteq> t))"
| "float_mul (Finite s m e) (Finite t n f) = round_double (s \<noteq> t) (m * n) (e + f)"

fun float_add :: "pyfloat \<Rightarrow> pyfloat \<Rightarrow> pyfloat" where
  "float_add NaN _ = NaN"
| "float_add _ NaN = NaN"
| "float_add (Infinity s) (Infinity t) = (if s = t then Infinity s else NaN)"
| "float_add (Infinity s) (Finite t n f) = Infinity s"
| "float_add (Finite s m e) (Infinity t) = Infinity t"
| "float_add (Finite s m e) (Finite t n f) =
     (if m = 0 \<and> n = 0 then Finite (s \<and> t) 0 (- 1074)
      else if n = 0 then Finite s m e
      else if m = 0 then Finite t n f
      else
        (let g = min e f;
             a = int (m * 2 ^ nat (e - g));
             b = int (n * 2 ^ nat (f - g));
             c = (if s then - a else a) + (if t then - b else b)
         in if c = 0 then Finite False 0 (- 1074)
            else round_double (c < 0) (nat \<bar>c\<bar>) g))"

text \<open>\<open>x - y\<close>, \<open>fabs(x) >= fabs(y)\<close>, and \<open>c && isfinite(c)\<close> of the C library.\<close>

fun float_neg :: "pyfloat \<Rightarrow> pyfloat" where
  "float_neg (Finite s m e) = Finite (\<not> s) m e"
| "float_neg (Infinity s) = Infinity (\<not> s)"
| "float_neg NaN = NaN"

definition float_sub :: "pyfloat \<Rightarrow> pyfloat \<Rightarrow> pyfloat" where
  "float_sub x y = float_add x (float_neg y)"

fun float_abs_ge :: "pyfloat \<Rightarrow> pyfloat \<Rightarrow> bool" where
  "float_abs_ge NaN _ \<longleftrightarrow> False"
| "float_abs_ge _ NaN \<longleftrightarrow> False"
| "float_abs_ge (Infinity s) _ \<longleftrightarrow> True"
| "float_abs_ge (Finite s m e) (Infinity t) \<longleftrightarrow> False"
| "float_abs_ge (Finite s m e) (Finite t n f) \<longleftrightarrow>
     n * 2 ^ nat (f - min e f) \<le> m * 2 ^ nat (e - min e f)"

fun float_finite_nonzero :: "pyfloat \<Rightarrow> bool" where
  "float_finite_nonzero (Finite s m e) \<longleftrightarrow> m \<noteq> 0"
| "float_finite_nonzero (Infinity s) \<longleftrightarrow> False"
| "float_finite_nonzero NaN \<longleftrightarrow> False"

text \<open>\<open>x * n\<close> for a float \<open>x\<close> and an int \<open>n\<close>: \<open>n\<close> is converted first.\<close>

definition float_mul_int :: "pyfloat \<Rightarrow> int \<Rightarrow> error + pyfloat" where
  "float_mul_int x n =
     (case float_of_int n of
        Inl err \<Rightarrow> Inl err
      | Inr y \<Rightarrow> Inr (float_mul x y))"

text \<open>\<open>x > 0\<close> for a float \<open>x\<close>.\<close>

fun float_gt_zero :: "pyfloat \<Rightarrow> bool" where
  "float_gt_zero (Finite s m e) \<longleftrightarrow> \<not> s \<and> 0 < m"
| "float_gt_zero (Infinity s) \<longleftrightarrow> \<not> s"
| "float_gt_zero NaN \<longleftrightarrow> False"

text \<open>
  \<open>sum\<close> over floats. The start value is the int \<open>0\<close>, which the first addition converts
  to the float \<open>0.0\<close>; of no items the sum is the int \<open>0\<close>, which the response model's
  \<^verbatim>\<open>total_revenue: float\<close> reads as \<open>0.0\<close>. CPython up to 3.11 adds the items from left to
  right. CPython from 3.12 on adds them the same way and keeps, beside the running sum
  \<open>f\<close>, the compensation \<open>c\<close> of the rounding errors (Neumaier's algorithm), which it
  adds at the end when it is finite and not zero. The source names no interpreter
  version, so the interpreter is an input of the report.
\<close>

datatype interpreter = CPython_upto_3_11 | CPython_from_3_12

definition float_zero :: pyfloat where
  "float_zero = Finite False 0 (- 1074)"

fun compensated_sum :: "pyfloat \<Rightarrow> pyfloat \<Rightarrow> pyfloat list \<Rightarrow> pyfloat" where
  "compensated_sum f c [] = (if float_finite_nonzero c then float_add f c else f)"
| "compensated_sum f c (x # xs) =
     (let t = float_add f x;
          c' = (if float_abs_ge f x then float_add c (float_add (float_sub f t) x)
                else float_add c (float_add (float_sub x t) f))
      in compensated_sum t c' xs)"

fun py_sum_float :: "interpreter \<Rightarrow> pyfloat list \<Rightarrow> pyfloat" where
  "py_sum_float CPython_upto_3_11 xs = foldl float_add float_zero xs"
| "py_sum_float CPython_from_3_12 [] = float_zero"
| "py_sum_float CPython_from_3_12 (x # xs) = compensated_sum (float_add float_zero x) float_zero xs"

subsection \<open>Tables, request bodies and the application state\<close>

record Product =
  p_id :: int
  p_name :: string
  p_price :: pyfloat
  p_created_at :: pydatetime

record Sale =
  s_id :: int
  s_product_id :: int
  s_quantity :: int
  s_total :: pyfloat
  s_created_at :: pydatetime

record ProductIn =
  in_name :: string
  in_price :: pyfloat

record SaleIn =
  in_product_id :: int
  in_quantity :: int

record DailyReport =
  r_date :: pydate
  total_revenue :: pyfloat
  total_items :: int

text \<open>
  The state the handlers act on: the two tables and the \<^verbatim>\<open>sales_total\<close> counter. The
  clock holds what \<^verbatim>\<open>datetime.utcnow()\<close> and \<^verbatim>\<open>date.today()\<close> return during the
  request.
\<close>

record app_state =
  products :: "Product list"
  sales :: "Sale list"
  SALE_COUNT :: nat

record clock =
  utcnow :: pydatetime
  today :: pydate

definition empty_state :: app_state where
  "empty_state = \<lparr>products = [], sales = [], SALE_COUNT = 0\<rparr>"

text \<open>The field constraints of the request bodies: \<^verbatim>\<open>min_length=1\<close>, \<^verbatim>\<open>gt=0\<close>.\<close>

definition ProductIn_validate :: "string \<Rightarrow> pyfloat \<Rightarrow> error + ProductIn" where
  "ProductIn_validate n p =
     (if 1 \<le> length n \<and> float_gt_zero p then Inr \<lparr>in_name = n, in_price = p\<rparr>
      else Inl ValidationError)"

definition SaleIn_validate :: "int \<Rightarrow> int \<Rightarrow> error + SaleIn" where
  "SaleIn_validate pid q =
     (if 0 < q then Inr \<lparr>in_product_id = pid, in_quantity = q\<rparr>
      else Inl ValidationError)"

text \<open>
  The integers SQLite stores: binding a Python \<open>int\<close> outside this range to a statement
  raises \<open>OverflowError\<close> (``Python int too large to convert to SQLite INTEGER'').
\<close>

definition sqlite_integer :: "int \<Rightarrow> bool" where
  "sqlite_integer n \<longleftrightarrow> - (2 ^ 63) \<le> n \<and> n < 2 ^ 63"

text \<open>
  The integer primary key the store gives a new row: one more than the greatest key of
  the table, and 1 in an empty table.
\<close>

fun next_id :: "int list \<Rightarrow> int" where
  "next_id [] = 1"
| "next_id (x # xs) = fold max xs x + 1"

subsection \<open>The handlers\<close>

text \<open>
  \<^verbatim>\<open>create_product\<close> (\<^verbatim>\<open>main.py\<close>, lines 79 to 88): the lookup by name, the 400 when a
  row is found, else the insert; the store assigns the key and the creation time, the
  column default \<^verbatim>\<open>datetime.utcnow\<close>.
\<close>

definition create_product ::
  "ProductIn \<Rightarrow> clock \<Rightarrow> app_state \<Rightarrow> (error + Product) \<times> app_state" where
  "create_product payload clk db =
     (case find (\<lambda>p. p_name p = in_name payload) (products db) of
        Some exists \<Rightarrow> (Inl (HTTPException 400 ''Product already exists''), db)
      | None \<Rightarrow>
          (let p = \<lparr>p_id = next_id (map p_id (products db)),
                    p_name = in_name payload,
                    p_price = in_price payload,
                    p_created_at = utcnow clk\<rparr>
           in (Inr p, db\<lparr>products := products db @ [p]\<rparr>)))"

text \<open>\<^verbatim>\<open>list_products\<close> (lines 90 to 92): every product, ordered by key.\<close>

definition list_products :: "app_state \<Rightarrow> (error + Product list) \<times> app_state" where
  "list_products db = (Inr (sort_key p_id (products db)), db)"

text \<open>
  \<^verbatim>\<open>create_sale\<close> (lines 94 to 105): the lookup by primary key (line 96), which binds the
  requested key and raises when the store cannot hold it; the 404 when there is no such
  row; the product of the float price and the int quantity (line 99), which raises when
  the quantity does not convert to a float; the insert (lines 101 and 102), which binds
  the quantity and raises when the store cannot hold it; then the increment of the
  counter. Whatever is raised, no row is written.
\<close>

definition create_sale ::
  "SaleIn \<Rightarrow> clock \<Rightarrow> app_state \<Rightarrow> (error + Sale) \<times> app_state" where
  "create_sale payload clk db =
     (if \<not> sqlite_integer (in_product_id payload) then (Inl OverflowError, db)
      else
        (case find (\<lambda>p. p_id p = in_product_id payload) (products db) of
           None \<Rightarrow> (Inl (HTTPException 404 ''Product not found''), db)
         | Some product \<Rightarrow>
             (case float_mul_int (p_price product) (in_quantity payload) of
                Inl err \<Rightarrow> (Inl err, db)
              | Inr tot \<Rightarrow>
                  (if \<not> sqlite_integer (in_quantity payload) then (Inl OverflowError, db)
                   else
                     (let s = \<lparr>s_id = next_id (map s_id (sales db)),
                               s_product_id = p_id product,
                               s_quantity = in_quantity payload,
                               s_total = tot,
                               s_created_at = utcnow clk\<rparr>
                      in (Inr s, db\<lparr>sales := sales db @ [s],
                                    SALE_COUNT := SALE_COUNT db + 1\<rparr>))))))"

text \<open>
  \<^verbatim>\<open>list_sales\<close> (lines 107 to 109): every sale, ordered by creation time, the latest
  first. Rows of equal creation time come in the order the engine picks; here the later
  row first.
\<close>

definition list_sales :: "app_state \<Rightarrow> (error + Sale list) \<times> app_state" where
  "list_sales db = (Inr (rev (sort_key (\<lambda>s. datetime_key (s_created_at s)) (sales db))), db)"

text \<open>
  \<^verbatim>\<open>daily_report\<close> (lines 116 to 125). \<open>daily_query\<close> is the selection of the query
  \<^verbatim>\<open>q\<close> of lines 120 to 122: the sales created from
  \<^verbatim>\<open>datetime.combine(d, datetime.min.time())\<close> to
  \<^verbatim>\<open>datetime.combine(d, datetime.max.time())\<close>, both included, here in table order. The
  query has no \<^verbatim>\<open>ORDER BY\<close>, so each of the two loops over it (lines 123 and 124) gets
  the selected rows in the order the store picks, \<open>fetch\<close>: SQLite serves the query
  through the index on \<^verbatim>\<open>created_at\<close> (\<open>index_scan\<close>: by creation time, then by row
  key) or reads the table by row key (\<open>table_scan\<close>).
\<close>

definition index_scan :: "Sale list \<Rightarrow> Sale list" where
  "index_scan rows = sort_key (\<lambda>s. (datetime_key (s_created_at s), s_id s)) rows"

definition table_scan :: "Sale list \<Rightarrow> Sale list" where
  "table_scan rows = sort_key s_id rows"


definition daily_query :: "pydate \<Rightarrow> app_state \<Rightarrow> Sale list" where
  "daily_query d db =
     (let start_dt = datetime_combine d datetime_min_time;
          end_dt = datetime_combine d datetime_max_time
      in filter (\<lambda>s. datetime_le start_dt (s_created_at s) \<and> datetime_le (s_created_at s) end_dt)
           (sales db))"

definition daily_report ::
  "interpreter \<Rightarrow> (Sale list \<Rightarrow> Sale list) \<Rightarrow> pydate option \<Rightarrow> clock \<Rightarrow> app_state
     \<Rightarrow> (error + DailyReport) \<times> app_state" where
  "daily_report py fetch d_opt clk db =
     (let d = (case d_opt of None \<Rightarrow> today clk | Some d' \<Rightarrow> d');
          q = daily_query d db;
          revenue = py_sum_float py (map s_total (fetch q));
          items = sum_list (map s_quantity (fetch q))
      in (Inr \<lparr>r_date = d, total_revenue = revenue, total_items = items\<rparr>, db))"

text \<open>The errors by the names the specification gives them.\<close>

definition ConflictError :: error where
  "ConflictError = HTTPException 400 ''Product already exists''"

definition NotFoundError :: error where
  "NotFoundError = HTTPException 404 ''Product not found''"

text \<open>The states the handlers reach from the empty store.\<close>

inductive reachable :: "app_state \<Rightarrow> bool" where
  reach_empty: "reachable empty_state"
| reach_create_product: "reachable db \<Longrightarrow> reachable (snd (create_product payload clk db))"
| reach_create_sale: "reachable db \<Longrightarrow> reachable (snd (create_sale spayload clk db))"
| reach_list_products: "reachable db \<Longrightarrow> reachable (snd (list_products db))"
| reach_list_sales: "reachable db \<Longrightarrow> reachable (snd (list_sales db))"
| reach_daily_report:
    "reachable db \<Longrightarrow> reachable (snd (daily_report py fetch d_opt clk db))"

subsection \<open>Example data\<close>

text \<open>The float 1.5, a product of that price, and a store that holds it.\<close>

definition one_and_a_half :: pyfloat where
  "one_and_a_half = Finite False 6755399441055744 (- 52)"

definition example_noon :: pydatetime where
  "example_noon =
     \<lparr>dt_date = \<lparr>year = 2024, month = 3, day = 1\<rparr>,
      dt_time = \<lparr>hour = 12, minute = 0, second = 0, microsecond = 0\<rparr>\<rparr>"

definition apple :: Product where
  "apple = \<lparr>p_id = 1, p_name = ''Apple'', p_price = one_and_a_half, p_created_at = example_noon\<rparr>"

definition apple_store :: app_state where
  "apple_store = \<lparr>products = [apple], sales = [], SALE_COUNT = 0\<rparr>"

text \<open>
  A clock read half an hour before midnight UTC on a server one hour ahead of UTC: the
  local date is already the next day.
\<close>

definition late_clock :: clock where
  "late_clock =
     \<lparr>utcnow = \<lparr>dt_date = \<lparr>year = 2024, month = 3, day = 1\<rparr>,
                 dt_time = \<lparr>hour = 23, minute = 30, second = 0, microsecond = 0\<rparr>\<rparr>,
      today = \<lparr>year = 2024, month = 3, day = 2\<rparr>\<rparr>"

text \<open>The store after the product is created in the empty store and four of it are sold.\<close>

definition apple_sale_store :: app_state where
  "apple_sale_store =
     snd (create_sale \<lparr>in_product_id = 1, in_quantity = 4\<rparr> late_clock
       (snd (create_product \<lparr>in_name = ''Apple'', in_price = one_and_a_half\<rparr> late_clock
          empty_state)))"

text \<open>
  A store with sales on the first and the last microsecond of 1 March 2024 and on the first
  two microseconds of 2 March.
\<close>

definition march_1 :: pydate where
  "march_1 = \<lparr>year = 2024, month = 3, day = 1\<rparr>"

definition march_2 :: pydate where
  "march_2 = \<lparr>year = 2024, month = 3, day = 2\<rparr>"

definition sale_at :: "int \<Rightarrow> int \<Rightarrow> pyfloat \<Rightarrow> pydate \<Rightarrow> pytime \<Rightarrow> Sale" where
  "sale_at i q t d tm =
     \<lparr>s_id = i, s_product_id = 1, s_quantity = q, s_total = t,
      s_created_at = \<lparr>dt_date = d, dt_time = tm\<rparr>\<rparr>"

definition boundary_store :: app_state where
  "boundary_store =
     \<lparr>products = [apple],
      sales =
        [sale_at 1 4 (Finite False 6755399441055744 (- 50)) march_1
           \<lparr>hour = 0, minute = 0, second = 0, microsecond = 0\<rparr>,
         sale_at 2 2 (Finite False 6755399441055744 (- 51)) march_1
           \<lparr>hour = 23, minute = 59, second = 59, microsecond = 999999\<rparr>,
         sale_at 3 1 one_and_a_half march_2
           \<lparr>hour = 0, minute = 0, second = 0, microsecond = 0\<rparr>,
         sale_at 4 1 one_and_a_half march_2
           \<lparr>hour = 0, minute = 0, second = 0, microsecond = 1\<rparr>],
      SALE_COUNT = 4\<rparr>"

text \<open>
  A store whose three sales of 1 March 2024 were made in the reverse order of their
  keys, the first and the last on the first and the last microsecond of the day, with
  totals 0.1, 0.2 and 0.3; two more sales on the first two microseconds of 2 March.
\<close>

definition order_store :: app_state where
  "order_store =
     \<lparr>products = [apple],
      sales =
        [sale_at 1 1 (Finite False 7205759403792794 (- 56)) march_1
           \<lparr>hour = 23, minute = 59, second = 59, microsecond = 999999\<rparr>,
         sale_at 2 2 (Finite False 7205759403792794 (- 55)) march_1
           \<lparr>hour = 12, minute = 0, second = 0, microsecond = 0\<rparr>,
         sale_at 3 3 (Finite False 5404319552844595 (- 54)) march_1
           \<lparr>hour = 0, minute = 0, second = 0, microsecond = 0\<rparr>,
         sale_at 4 1 one_and_a_half march_2
           \<lparr>hour = 0, minute = 0, second = 0, microsecond = 0\<rparr>,
         sale_at 5 1 one_and_a_half march_2
           \<lparr>hour = 0, minute = 0, second = 0, microsecond = 1\<rparr>],
      SALE_COUNT = 5\<rparr>"

text \<open>The sale of four apples made at the time \<open>late_clock\<close> shows.\<close>

definition late_sale :: Sale where
  "late_sale =
     \<lparr>s_id = 1, s_product_id = 1, s_quantity = 4,
      s_total = Finite False 6755399441055744 (- 50), s_created_at = utcnow late_clock\<rparr>"

text \<open>
  A sale is consistent with a product table when a product of the table has the key the
  sale refers to and the sale's total is that product's price times the sale's quantity.
\<close>

definition sale_ok :: "Product list \<Rightarrow> Sale \<Rightarrow> bool" where
  "sale_ok ps s \<longleftrightarrow> (\<exists>p\<in>set ps. p_id p = s_product_id s
      \<and> float_mul_int (p_price p) (s_quantity s) = Inr (s_total s))"

section \<open>Properties\<close>

subsection \<open>Lookups and fresh keys\<close>

lemma find_None_iff_all: "find P xs = None \<longleftrightarrow> (\<forall>x\<in>set xs. \<not> P x)"
  by (induction xs) auto

lemma find_Some_mem: "find P xs = Some x \<Longrightarrow> x \<in> set xs \<and> P x"
  by (induction xs) (auto split: if_splits)

lemma find_Some_ex: "x \<in> set xs \<Longrightarrow> P x \<Longrightarrow> \<exists>y. find P xs = Some y"
  by (induction xs) auto

lemma fold_max_ge: "(a::int) \<le> fold max xs a"
  by (induction xs arbitrary: a) (auto intro: order_trans [OF max.cobounded2])

lemma fold_max_mem_le: "(x::int) \<in> set xs \<Longrightarrow> x \<le> fold max xs a"
proof (induction xs arbitrary: a)
  case Nil
  then show ?case by simp
next
  case (Cons y ys)
  show ?case
  proof (cases "x = y")
    case True
    have "max y a \<le> fold max ys (max y a)" by (rule fold_max_ge)
    then show ?thesis using True by simp
  next
    case False
    then show ?thesis using Cons by simp
  qed
qed

lemma next_id_greater: "x \<in> set ids \<Longrightarrow> x < next_id ids"
proof (cases ids)
  case Nil
  then show "x \<in> set ids \<Longrightarrow> ?thesis" by simp
next
  case (Cons y ys)
  assume "x \<in> set ids"
  then have "x = y \<or> x \<in> set ys" using Cons by simp
  then have "x \<le> fold max ys y"
    using fold_max_ge [of y ys] fold_max_mem_le [of x ys y] by auto
  then show ?thesis using Cons by simp
qed

subsection \<open>Converting an integer to a float\<close>

lemma bit_length_le_iff: "bit_length m \<le> b \<longleftrightarrow> m < 2 ^ b"
proof (induction b arbitrary: m)
  case 0
  show ?case by (subst bit_length.simps) simp
next
  case (Suc b)
  show ?case
  proof (cases "m = 0")
    case True
    then show ?thesis by (subst bit_length.simps) simp
  next
    case False
    have "bit_length m = Suc (bit_length (m div 2))"
      using False by (subst bit_length.simps) simp
    moreover have "m div 2 < 2 ^ b \<longleftrightarrow> m < 2 * 2 ^ b" by linarith
    ultimately show ?thesis using Suc.IH [of "m div 2"] by simp
  qed
qed

lemma bit_length_upper: "m < 2 ^ bit_length m"
  using bit_length_le_iff [of m "bit_length m"] by simp

lemma bit_length_lower: "m \<noteq> 0 \<Longrightarrow> 2 ^ (bit_length m - 1) \<le> m"
proof -
  assume "m \<noteq> 0"
  then have "0 < bit_length m" by (subst bit_length.simps) simp
  then have "\<not> bit_length m \<le> bit_length m - 1" by simp
  then show ?thesis using bit_length_le_iff [of m "bit_length m - 1"] by simp
qed

text \<open>The bit length of a numeral, digit by digit.\<close>

lemma bit_length_numeral:
  "bit_length 0 = 0"
  "bit_length (Suc 0) = 1"
  "bit_length (numeral Num.One) = 1"
  "bit_length (numeral (Num.Bit0 n)) = bit_length (numeral n) + 1"
  "bit_length (numeral (Num.Bit1 n)) = bit_length (numeral n) + 1"
proof -
  show "bit_length 0 = 0" by (subst bit_length.simps) simp
  then show "bit_length (Suc 0) = 1" by (subst bit_length.simps) simp
  then show "bit_length (numeral Num.One) = 1" by simp
  show "bit_length (numeral (Num.Bit0 n)) = bit_length (numeral n) + 1"
    by (subst bit_length.simps) simp
  show "bit_length (numeral (Num.Bit1 n)) = bit_length (numeral n) + 1"
    by (subst bit_length.simps) simp
qed

lemma round_half_even_cases:
  "round_half_even m k = m div 2 ^ k \<or> round_half_even m k = m div 2 ^ k + 1"
  by (simp add: round_half_even_def Let_def)

lemma div_pow_bounds:
  assumes "2 ^ (p + k) \<le> (m::nat)" and "m < 2 ^ (Suc p + k)"
  shows "2 ^ p \<le> m div 2 ^ k" and "m div 2 ^ k < 2 ^ Suc p"
proof -
  have "2 ^ p * 2 ^ k \<le> m" using assms(1) by (simp add: power_add)
  then show "2 ^ p \<le> m div 2 ^ k" by (simp add: less_eq_div_iff_mult_less_eq)
  have "m < 2 ^ Suc p * 2 ^ k" using assms(2) by (simp add: power_add)
  then show "m div 2 ^ k < 2 ^ Suc p" by (simp add: less_mult_imp_div_less)
qed


lemma round_double_small:
  assumes "bit_length m \<le> 53"
  shows "round_double s m 0 =
     (if m = 0 then Finite s 0 (- 1074)
      else Finite s (m * 2 ^ (53 - bit_length m)) (int (bit_length m) - 53))"
proof -
  define b where "b = bit_length m"
  have "m * 2 ^ (53 - b) < 2 ^ b * 2 ^ (53 - b)"
    using bit_length_upper [of m] by (simp add: b_def)
  also have "\<dots> = 2 ^ 53" using assms by (simp add: b_def flip: power_add)
  finally have lt: "m * 2 ^ (53 - b) < 2 ^ 53" .
  have n: "nat (53 - int b) = 53 - b" by simp
  show ?thesis
    unfolding round_double_def Let_def b_def [symmetric]
    using assms lt by (simp add: b_def [symmetric] n)
qed

lemma round_double_large:
  assumes "53 < bit_length m"
  shows "round_double s m 0 =
     (if round_half_even m (bit_length m - 53) = 2 ^ 53
      then (if 970 < int (bit_length m) - 53 then Infinity s
            else Finite s (2 ^ 52) (int (bit_length m) - 53 + 1))
      else (if 971 < int (bit_length m) - 53 then Infinity s
            else Finite s (round_half_even m (bit_length m - 53)) (int (bit_length m) - 53)))"
proof -
  define b where "b = bit_length m"
  define k where "k = b - 53"
  have b: "b = k + 53" and k: "0 < k" using assms by (simp_all add: b_def k_def)
  have "m \<noteq> 0" using assms by (subst (asm) bit_length.simps) (simp split: if_splits)
  then have "2 ^ (52 + k) \<le> m" using bit_length_lower [of m] b by (simp add: b_def)
  moreover have "m < 2 ^ (Suc 52 + k)" using bit_length_upper [of m] b
    by (simp add: b_def add.commute)
  ultimately have "2 ^ 52 \<le> m div 2 ^ k" by (rule div_pow_bounds(1))
  then have nz: "round_half_even m k \<noteq> 0"
    using round_half_even_cases [of m k] by auto
  have n: "nat (int b - 53) = k" by (simp add: k_def)
  have q: "int b - 53 = int k" using b by simp
  show ?thesis
    unfolding round_double_def Let_def b_def [symmetric]
    using nz k by (simp add: q k_def [symmetric])
qed


lemma round_half_even_carry_iff:
  assumes "m < 2 ^ 1024"
  shows "round_half_even m 971 = 2 ^ 53 \<longleftrightarrow> 2 ^ 1024 - 2 ^ 970 \<le> m"
proof -
  define C :: nat where "C = 2 ^ 971"
  define H :: nat where "H = 2 ^ 970"
  define d where "d = m div C"
  define r where "r = m mod C"
  have C: "C = 2 * H" by (simp add: C_def H_def)
  have H: "0 < H" by (simp add: H_def)
  have top: "(2::nat) ^ 1024 = 2 ^ 53 * C" by (simp add: C_def flip: power_add)
  have T: "(2::nat) ^ 1024 - 2 ^ 970 = (2 ^ 53 - 1) * C + H"
    unfolding top C H_def [symmetric] by (simp add: algebra_simps)
  have m: "m = d * C + r" by (simp add: d_def r_def)
  have r: "r < C" using H by (simp add: r_def C)
  have "m < 2 ^ 53 * C" using assms top by simp
  then have d: "d < 2 ^ 53" unfolding d_def by (simp add: less_mult_imp_div_less)
  have rhe: "round_half_even m 971 = (if C < 2 * r \<or> (2 * r = C \<and> odd d) then d + 1 else d)"
    by (simp add: round_half_even_def Let_def C_def d_def r_def)
  show ?thesis
  proof
    assume "round_half_even m 971 = 2 ^ 53"
    then have "d + 1 = 2 ^ 53" and "C \<le> 2 * r"
      using rhe d by (auto split: if_splits)
    then have "d = 2 ^ 53 - 1" and "H \<le> r" using C by simp_all
    then have "(2 ^ 53 - 1) * C + H \<le> m" using m by simp
    then show "2 ^ 1024 - 2 ^ 970 \<le> m" using T by simp
  next
    assume "2 ^ 1024 - 2 ^ 970 \<le> m"
    then have ge: "(2 ^ 53 - 1) * C + H \<le> d * C + r" using T m by simp
    have "\<not> d < 2 ^ 53 - 1"
    proof
      assume "d < 2 ^ 53 - 1"
      then have "d + 1 \<le> 2 ^ 53 - 1" by simp
      then have "(d + 1) * C \<le> (2 ^ 53 - 1) * C" by (rule mult_le_mono1)
      moreover have "(d + 1) * C = d * C + C" by (simp add: algebra_simps)
      ultimately have "d * C + C \<le> (2 ^ 53 - 1) * C" by simp
      then show False using ge r by linarith
    qed
    then have deq: "d = 2 ^ 53 - 1" using d by simp
    then have "H \<le> r" using ge by simp
    then have "C \<le> 2 * r" using C by simp
    moreover have "odd d" unfolding deq by simp
    ultimately have "round_half_even m 971 = d + 1" using rhe by auto
    then show "round_half_even m 971 = 2 ^ 53" using deq by simp
  qed
qed

lemma round_double_int_overflow_iff:
  "(\<exists>t. round_double s m 0 = Infinity t) \<longleftrightarrow> 2 ^ 1024 - 2 ^ 970 \<le> m"
proof -
  define b where "b = bit_length m"
  have up: "m < 2 ^ b" using bit_length_upper [of m] by (simp add: b_def)
  consider "b \<le> 53" | "53 < b" "b \<le> 1023" | "b = 1024" | "1025 \<le> b" by linarith
  then show ?thesis
  proof cases
    case 1
    then have "(2::nat) ^ b \<le> 2 ^ 53" by (intro power_increasing) simp_all
    then have "m < 2 ^ 53" using up by simp
    then have "\<not> 2 ^ 1024 - 2 ^ 970 \<le> m" by simp
    moreover have "\<not> (\<exists>t. round_double s m 0 = Infinity t)"
      using round_double_small [of m s] 1 by (simp add: b_def)
    ultimately show ?thesis by simp
  next
    case 2
    then have "(2::nat) ^ b \<le> 2 ^ 1023" by (intro power_increasing) simp_all
    then have "m < 2 ^ 1023" using up by simp
    then have "\<not> 2 ^ 1024 - 2 ^ 970 \<le> m" by simp
    moreover have "\<not> (\<exists>t. round_double s m 0 = Infinity t)"
      using round_double_large [of m s] 2 by (simp add: b_def)
    ultimately show ?thesis by simp
  next
    case 3
    then have m: "m < 2 ^ 1024" using up by simp
    have "(\<exists>t. round_double s m 0 = Infinity t) \<longleftrightarrow> round_half_even m 971 = 2 ^ 53"
      using round_double_large [of m s] 3 by (simp add: b_def)
    then show ?thesis using round_half_even_carry_iff [OF m] by simp
  next
    case 4
    then have "m \<noteq> 0" unfolding b_def by (subst (asm) bit_length.simps) (simp split: if_splits)
    then have "2 ^ (b - 1) \<le> m" using bit_length_lower [of m] by (simp add: b_def)
    moreover have "(2::nat) ^ 1024 \<le> 2 ^ (b - 1)" using 4 by (intro power_increasing) simp_all
    ultimately have "2 ^ 1024 - 2 ^ 970 \<le> m" by simp
    moreover have "\<exists>t. round_double s m 0 = Infinity t"
      using round_double_large [of m s] 4 by (simp add: b_def)
    ultimately show ?thesis by simp
  qed
qed

lemma float_of_int_overflow_iff:
  "float_of_int n = Inl OverflowError \<longleftrightarrow> 2 ^ 1024 - 2 ^ 970 \<le> \<bar>n\<bar>"
proof -
  have "float_of_int n = Inl OverflowError
        \<longleftrightarrow> (\<exists>t. round_double (n < 0) (nat \<bar>n\<bar>) 0 = Infinity t)"
    by (auto simp: float_of_int_def split: pyfloat.splits)
  also have "\<dots> \<longleftrightarrow> 2 ^ 1024 - 2 ^ 970 \<le> nat \<bar>n\<bar>"
    by (rule round_double_int_overflow_iff)
  also have "\<dots> \<longleftrightarrow> 2 ^ 1024 - 2 ^ 970 \<le> \<bar>n\<bar>"
    by (simp add: le_nat_iff)
  finally show ?thesis .
qed

lemma float_of_int_cases:
  "float_of_int n = Inl OverflowError \<or> (\<exists>x. float_of_int n = Inr x)"
  by (simp add: float_of_int_def split: pyfloat.splits)

lemmas float_eval =
  float_mul_int_def float_of_int_def round_double_def round_half_even_def bit_length_numeral
  float_zero_def float_sub_def Let_def

subsection \<open>The day of a timestamp\<close>

lemma date_key_inj: "date_key a = date_key b \<longleftrightarrow> a = b"
  by (cases a, cases b) (auto simp: date_key_def)

lemma time_key_min: "time_key datetime_min_time \<le> time_key t"
  by (simp add: time_key_def datetime_min_time_def)

lemma time_key_max: "valid_time t \<Longrightarrow> time_key t \<le> time_key datetime_max_time"
  by (auto simp: time_key_def datetime_max_time_def valid_time_def)

lemma day_interval_iff:
  assumes "valid_time (dt_time x)"
  shows "datetime_le (datetime_combine d datetime_min_time) x
           \<and> datetime_le x (datetime_combine d datetime_max_time)
         \<longleftrightarrow> dt_date x = d"
proof -
  have "date_key d \<le> date_key (dt_date x) \<and> date_key (dt_date x) \<le> date_key d
        \<longleftrightarrow> dt_date x = d"
    using date_key_inj [of "dt_date x" d] by auto
  then show ?thesis
    using time_key_min [of "dt_time x"] time_key_max [OF assms]
    by (auto simp: datetime_le_def datetime_key_def datetime_combine_def)
qed

subsection \<open>Creating a product\<close>

text \<open>What the request bodies accept.\<close>

lemma ProductIn_validate_iff:
  "ProductIn_validate n pr = Inr payload \<longleftrightarrow>
     n \<noteq> [] \<and> float_gt_zero pr \<and> payload = \<lparr>in_name = n, in_price = pr\<rparr>"
  by (cases n) (auto simp: ProductIn_validate_def)

lemma SaleIn_validate_iff:
  "SaleIn_validate pid q = Inr payload \<longleftrightarrow>
     0 < q \<and> payload = \<lparr>in_product_id = pid, in_quantity = q\<rparr>"
  by (auto simp: SaleIn_validate_def)

text \<open>
  C3. When a product of the requested name is in the store, \<open>create_product\<close> raises
  the 400 ``Product already exists'' (the specification's \<open>ConflictError\<close>), whatever the
  price of the request, and leaves the state as it was: no row is written, and
  \<open>list_products\<close> answers after the attempt what it answered before.
\<close>

theorem create_product_duplicate_name_conflict:
  assumes "p \<in> set (products db)" and "p_name p = n"
  shows "create_product \<lparr>in_name = n, in_price = pr\<rparr> clk db = (Inl ConflictError, db)
     \<and> products (snd (create_product \<lparr>in_name = n, in_price = pr\<rparr> clk db)) = products db
     \<and> list_products (snd (create_product \<lparr>in_name = n, in_price = pr\<rparr> clk db))
         = list_products db"
proof -
  obtain y where "find (\<lambda>p. p_name p = n) (products db) = Some y"
    using find_Some_ex [of p "products db" "\<lambda>p. p_name p = n"] assms by auto
  then have "create_product \<lparr>in_name = n, in_price = pr\<rparr> clk db = (Inl ConflictError, db)"
    by (simp add: create_product_def ConflictError_def)
  then show ?thesis by simp
qed

theorem create_product_duplicate_name_conflict_witness:
  "apple \<in> set (products apple_store) \<and> p_name apple = ''Apple''
   \<and> create_product \<lparr>in_name = ''Apple'', in_price = Finite False 4503599627370496 (- 51)\<rparr>
         late_clock apple_store
       = (Inl (HTTPException 400 ''Product already exists''), apple_store)"
  using create_product_duplicate_name_conflict
    [of apple apple_store "''Apple''" "Finite False 4503599627370496 (- 51)" late_clock]
  by (simp add: apple_store_def apple_def ConflictError_def)



subsection \<open>Listing\<close>

lemma reachable_ids_increasing: "reachable db \<Longrightarrow> sorted_wrt (<) (map p_id (products db))"
proof (induction rule: reachable.induct)
  case reach_empty
  then show ?case by (simp add: empty_state_def)
next
  case (reach_create_product db payload clk)
  then show ?case
    by (auto simp: create_product_def Let_def sorted_wrt_append next_id_greater
        split: option.splits)
next
  case (reach_create_sale db spayload clk)
  then show ?case
    by (auto simp: create_sale_def Let_def split: option.splits sum.splits if_splits)
next
  case (reach_list_products db)
  then show ?case by (simp add: list_products_def)
next
  case (reach_list_sales db)
  then show ?case by (simp add: list_sales_def)
next
  case (reach_daily_report db py fetch d_opt clk)
  then show ?case by (simp add: daily_report_def Let_def)
qed

text \<open>
  C8. \<open>list_products\<close> never fails and never writes; its answer holds every row of the
  product table once and is sorted by ascending key. In every state reached from the
  empty store the keys grow with each insertion, so the answer is the table in creation
  order.
\<close>

theorem list_products_ascending_id:
  "\<exists>xs. list_products db = (Inr xs, db) \<and> mset xs = mset (products db)
     \<and> sorted (map p_id xs) \<and> (reachable db \<longrightarrow> xs = products db)"
proof -
  have "sort_key p_id (products db) = products db" if "reachable db"
  proof -
    from that have "sorted_wrt (<) (map p_id (products db))"
      by (rule reachable_ids_increasing)
    then have "sorted (map p_id (products db))"
      by (rule sorted_wrt_mono_rel [rotated]) simp
    then show ?thesis by (rule sort_key_id_if_sorted)
  qed
  then show ?thesis by (simp add: list_products_def)
qed

theorem list_products_ascending_id_witness:
  "reachable (snd (create_product \<lparr>in_name = ''Apple'', in_price = one_and_a_half\<rparr>
                    late_clock empty_state))
   \<and> fst (list_products (snd (create_product \<lparr>in_name = ''Apple'', in_price = one_and_a_half\<rparr>
                    late_clock empty_state)))
     = Inr [\<lparr>p_id = 1, p_name = ''Apple'', p_price = one_and_a_half,
              p_created_at = utcnow late_clock\<rparr>]"
proof -
  let ?db = "snd (create_product \<lparr>in_name = ''Apple'', in_price = one_and_a_half\<rparr>
                    late_clock empty_state)"
  have r: "reachable ?db" by (rule reach_create_product [OF reach_empty])
  have p: "products ?db = [\<lparr>p_id = 1, p_name = ''Apple'', p_price = one_and_a_half,
              p_created_at = utcnow late_clock\<rparr>]"
    by (simp add: create_product_def empty_state_def Let_def)
  show ?thesis using list_products_ascending_id [of ?db] r p by auto
qed

text \<open>
  When the keys of the product table are distinct, the table determines the answer to
  \<^verbatim>\<open>ORDER BY id\<close>: every listing of the table's rows by ascending key is the answer of
  \<open>list_products\<close>.
\<close>

lemma order_by_id_answer_unique:
  assumes "distinct (map p_id (products db))" and "mset xs = mset (products db)"
    and "sorted (map p_id xs)"
  shows "list_products db = (Inr xs, db)"
proof -
  let ?ys = "sort_key p_id (products db)"
  have m: "mset (map p_id xs) = mset (map p_id ?ys)" using assms(2) by simp
  have dy: "distinct (map p_id ?ys)" using assms(1) by (simp add: distinct_map)
  then have dx: "distinct (map p_id xs)" using m by (metis mset_eq_imp_distinct_iff)
  have "set (map p_id xs) = set (map p_id ?ys)" using m by (rule mset_eq_setD)
  then have keys: "map p_id xs = map p_id ?ys"
    using assms(3) dx dy by (intro sorted_distinct_set_unique) simp_all
  have "set xs = set (products db)" using assms(2) by (rule mset_eq_setD)
  then have "inj_on p_id (set xs \<union> set ?ys)" using assms(1) by (simp add: distinct_map)
  with keys have "xs = ?ys" by (rule map_inj_on)
  then show ?thesis by (simp add: list_products_def)
qed

text \<open>
  C9. \<open>list_sales\<close> never fails and never writes; its answer holds every row of the
  sales table once, each row's creation time at or after that of every row behind it.
  Nothing is said of the order of rows of equal creation time.
\<close>

theorem list_sales_descending_created_at:
  "\<exists>xs. list_sales db = (Inr xs, db) \<and> mset xs = mset (sales db)
     \<and> sorted_wrt (\<lambda>a b. datetime_le (s_created_at b) (s_created_at a)) xs"
proof -
  let ?k = "\<lambda>s. datetime_key (s_created_at s)"
  let ?xs = "rev (sort_key ?k (sales db))"
  have "sorted (map ?k (sort_key ?k (sales db)))" by (rule sorted_sort_key)
  then have "sorted_wrt (\<lambda>a b. ?k a \<le> ?k b) (sort_key ?k (sales db))"
    by (simp add: sorted_map)
  then have "sorted_wrt (\<lambda>a b. datetime_le (s_created_at b) (s_created_at a)) ?xs"
    by (simp add: sorted_wrt_rev datetime_le_def)
  moreover have "mset ?xs = mset (sales db)" by simp
  ultimately show ?thesis by (simp add: list_sales_def)
qed

text \<open>On the store of the boundary sales the latest sale comes first.\<close>

lemma list_sales_boundary_store:
  "\<exists>xs. list_sales boundary_store = (Inr xs, boundary_store) \<and> map s_id xs = [4, 3, 2, 1]"
  by (simp add: list_sales_def boundary_store_def sale_at_def march_1_def march_2_def
      datetime_key_def date_key_def time_key_def one_and_a_half_def)

subsection \<open>Creating a sale\<close>

text \<open>
  C4, as the code has it. When the requested product key is an integer the store can
  hold and no product of the store has it, \<open>create_sale\<close> raises the 404 ``Product not
  found'' (the specification's \<open>NotFoundError\<close>), whatever the quantity, and leaves the
  state as it was: the sales table, and the answer of \<open>list_sales\<close>, are what they were.
\<close>

theorem create_sale_unknown_product_not_found:
  assumes "0 < q" and "pid \<notin> p_id ` set (products db)"
    and "- (2 ^ 63) \<le> pid" and "pid < 2 ^ 63"
  shows "create_sale \<lparr>in_product_id = pid, in_quantity = q\<rparr> clk db = (Inl NotFoundError, db)
     \<and> sales (snd (create_sale \<lparr>in_product_id = pid, in_quantity = q\<rparr> clk db)) = sales db
     \<and> list_sales (snd (create_sale \<lparr>in_product_id = pid, in_quantity = q\<rparr> clk db))
         = list_sales db"
proof -
  have "find (\<lambda>p. p_id p = pid) (products db) = None"
    using assms(2) by (auto simp: find_None_iff_all)
  moreover have "sqlite_integer pid"
    using assms(3,4) by (simp add: sqlite_integer_def)
  ultimately have "create_sale \<lparr>in_product_id = pid, in_quantity = q\<rparr> clk db
      = (Inl NotFoundError, db)"
    by (simp add: create_sale_def NotFoundError_def)
  then show ?thesis by simp
qed

theorem create_sale_unknown_product_not_found_witness:
  "(0::int) < 4 \<and> 7 \<notin> p_id ` set (products apple_store)
   \<and> - (2 ^ 63) \<le> (7::int) \<and> (7::int) < 2 ^ 63
   \<and> create_sale \<lparr>in_product_id = 7, in_quantity = 4\<rparr> late_clock apple_store
       = (Inl (HTTPException 404 ''Product not found''), apple_store)"
proof -
  have h1: "(0::int) < 4" by simp
  have h2: "7 \<notin> p_id ` set (products apple_store)"
    by (simp add: apple_store_def apple_def)
  have h3: "- (2 ^ 63) \<le> (7::int)" by simp
  have h4: "(7::int) < 2 ^ 63" by simp
  show ?thesis
    using create_sale_unknown_product_not_found [OF h1 h2 h3 h4, of late_clock] h2
    by (simp add: NotFoundError_def)
qed

text \<open>
  The claim C4 without the bound fails: no product of the store has the key \<open>2\<^sup>6\<^sup>3\<close> and
  the quantity is above zero, but the lookup of line 96 raises \<open>OverflowError\<close> when it
  binds the key, not the 404.
\<close>

theorem create_sale_huge_product_id_overflow:
  "(0::int) < 4 \<and> 2 ^ 63 \<notin> p_id ` set (products apple_store)
   \<and> create_sale \<lparr>in_product_id = 2 ^ 63, in_quantity = 4\<rparr> late_clock apple_store
       = (Inl OverflowError, apple_store)
   \<and> OverflowError \<noteq> NotFoundError"
  by (simp add: create_sale_def sqlite_integer_def apple_store_def apple_def NotFoundError_def)

lemma find_distinct_key:
  assumes "distinct (map f xs)" and "x \<in> set xs"
  shows "find (\<lambda>y. f y = f x) xs = Some x"
  using assms by (induction xs) (auto simp: image_iff)

lemma float_mul_int_succeeds:
  assumes "\<bar>n\<bar> < 2 ^ 1024 - 2 ^ 970"
  shows "\<exists>t. float_mul_int x n = Inr t"
proof -
  have "float_of_int n \<noteq> Inl OverflowError"
    using assms by (simp add: float_of_int_overflow_iff)
  then obtain y where "float_of_int n = Inr y" using float_of_int_cases [of n] by auto
  then show ?thesis by (simp add: float_mul_int_def)
qed

text \<open>
  C1, as the code has it, on the default store. The product table's key is unique. For a
  product of the store, under a key the store can hold, and a quantity above zero that
  the store can hold, that is, below \<open>2\<^sup>6\<^sup>3\<close>, \<open>create_sale\<close> returns a sale whose total
  is the float product of the product's price and the quantity; the sale is the row
  appended to the sales table, under a key no row had, and the \<^verbatim>\<open>sales_total\<close> counter
  grows by one.
\<close>

theorem create_sale_total_is_price_times_quantity:
  assumes "p \<in> set (products db)" and "p_id p = pid" and "distinct (map p_id (products db))"
    and "- (2 ^ 63) \<le> pid" and "pid < 2 ^ 63"
    and "0 < q" and "q < 2 ^ 63"
  shows "\<exists>s db'. create_sale \<lparr>in_product_id = pid, in_quantity = q\<rparr> clk db = (Inr s, db')
     \<and> float_mul_int (p_price p) q = Inr (s_total s)
     \<and> s_product_id s = pid \<and> s_quantity s = q \<and> s_created_at s = utcnow clk
     \<and> s_id s \<notin> s_id ` set (sales db)
     \<and> sales db' = sales db @ [s] \<and> products db' = products db
     \<and> SALE_COUNT db' = SALE_COUNT db + 1"
proof -
  have f: "find (\<lambda>y. p_id y = pid) (products db) = Some p"
    using find_distinct_key [OF assms(3) assms(1)] assms(2) by simp
  have "\<bar>q\<bar> < 2 ^ 1024 - 2 ^ 970" using assms(6,7) by simp
  then obtain t where t: "float_mul_int (p_price p) q = Inr t"
    using float_mul_int_succeeds [of q "p_price p"] by auto
  have k: "sqlite_integer pid" and n: "sqlite_integer q"
    using assms(4-7) by (simp_all add: sqlite_integer_def)
  have fresh: "next_id (map s_id (sales db)) \<notin> s_id ` set (sales db)"
    using next_id_greater [of _ "map s_id (sales db)"] by fastforce
  show ?thesis using f t k n fresh assms(2) by (simp add: create_sale_def Let_def)
qed

theorem create_sale_total_is_price_times_quantity_witness:
  "apple \<in> set (products apple_store) \<and> p_id apple = 1
   \<and> distinct (map p_id (products apple_store))
   \<and> - (2 ^ 63) \<le> (1::int) \<and> (1::int) < 2 ^ 63 \<and> (0::int) < 4 \<and> (4::int) < 2 ^ 63
   \<and> (\<exists>s db'. create_sale \<lparr>in_product_id = 1, in_quantity = 4\<rparr> late_clock apple_store
          = (Inr s, db')
        \<and> s_total s = Finite False 6755399441055744 (- 50) \<and> sales db' = [s])"
proof -
  have h1: "apple \<in> set (products apple_store)" by (simp add: apple_store_def)
  have h2: "p_id apple = 1" by (simp add: apple_def)
  have h3: "distinct (map p_id (products apple_store))" by (simp add: apple_store_def)
  have h4: "- (2 ^ 63) \<le> (1::int)" by simp
  have h5: "(1::int) < 2 ^ 63" by simp
  have h6: "(0::int) < 4" by simp
  have h7: "(4::int) < 2 ^ 63" by simp
  have m: "float_mul_int (p_price apple) 4 = Inr (Finite False 6755399441055744 (- 50))"
    by (simp add: apple_def one_and_a_half_def float_eval)
  have s: "sales apple_store = []" by (simp add: apple_store_def)
  show ?thesis
    using create_sale_total_is_price_times_quantity [OF h1 h2 h3 h4 h5 h6 h7, of late_clock]
      h1 h2 h3
    unfolding m s by auto
qed

text \<open>
  The claim C1 without the bound fails. The product 1 is in the store and both
  quantities are above zero; at the quantity \<open>2\<^sup>6\<^sup>3\<close> the insert of line 102 raises
  \<open>OverflowError\<close> when it binds the quantity, and at \<open>2\<^sup>1\<^sup>0\<^sup>2\<^sup>4\<close> the multiplication of
  line 99 raises it when it converts the quantity. No sale is written.
\<close>

theorem create_sale_huge_quantity_overflow:
  "apple \<in> set (products apple_store) \<and> p_id apple = 1
   \<and> (0::int) < 2 ^ 63 \<and> (0::int) < 2 ^ 1024
   \<and> create_sale \<lparr>in_product_id = 1, in_quantity = 2 ^ 63\<rparr> late_clock apple_store
       = (Inl OverflowError, apple_store)
   \<and> create_sale \<lparr>in_product_id = 1, in_quantity = 2 ^ 1024\<rparr> late_clock apple_store
       = (Inl OverflowError, apple_store)"
proof -
  have f: "find (\<lambda>p. p_id p = 1) (products apple_store) = Some apple"
    by (simp add: apple_store_def apple_def)
  have k: "sqlite_integer 1" by (simp add: sqlite_integer_def)
  have "(2::int) ^ 1024 - 2 ^ 970 \<le> \<bar>2 ^ 1024\<bar>" by simp
  then have "float_of_int (2 ^ 1024) = Inl OverflowError"
    by (simp only: float_of_int_overflow_iff)
  then have "float_mul_int (p_price apple) (2 ^ 1024) = Inl OverflowError"
    by (simp only: float_mul_int_def sum.case)
  then have big: "create_sale \<lparr>in_product_id = 1, in_quantity = 2 ^ 1024\<rparr> late_clock apple_store
       = (Inl OverflowError, apple_store)"
    using f k by (simp add: create_sale_def)
  have "\<not> sqlite_integer (2 ^ 63)" by (simp add: sqlite_integer_def)
  moreover have "\<bar>(2::int) ^ 63\<bar> < 2 ^ 1024 - 2 ^ 970" by simp
  then obtain t where "float_mul_int (p_price apple) (2 ^ 63) = Inr t"
    using float_mul_int_succeeds [of "2 ^ 63" "p_price apple"] by auto
  ultimately have small: "create_sale \<lparr>in_product_id = 1, in_quantity = 2 ^ 63\<rparr> late_clock
      apple_store = (Inl OverflowError, apple_store)"
    using f k by (simp add: create_sale_def)
  show ?thesis using big small by (simp add: apple_store_def apple_def)
qed

subsection \<open>The ledger in reachable states\<close>

lemma create_product_state:
  "snd (create_product payload clk db) = db
   \<or> (\<exists>p. snd (create_product payload clk db) = db\<lparr>products := products db @ [p]\<rparr>)"
proof (cases "find (\<lambda>p. p_name p = in_name payload) (products db)")
  case None
  then have "snd (create_product payload clk db) =
      db\<lparr>products := products db @
        [\<lparr>p_id = next_id (map p_id (products db)), p_name = in_name payload,
          p_price = in_price payload, p_created_at = utcnow clk\<rparr>]\<rparr>"
    by (simp add: create_product_def Let_def)
  then show ?thesis by blast
next
  case (Some exists)
  then show ?thesis by (simp add: create_product_def)
qed

lemma create_sale_state:
  "snd (create_sale spayload clk db) = db
   \<or> (\<exists>product tot. product \<in> set (products db)
         \<and> float_mul_int (p_price product) (in_quantity spayload) = Inr tot
         \<and> snd (create_sale spayload clk db) =
             db\<lparr>sales := sales db @
                    [\<lparr>s_id = next_id (map s_id (sales db)), s_product_id = p_id product,
                      s_quantity = in_quantity spayload, s_total = tot,
                      s_created_at = utcnow clk\<rparr>],
                SALE_COUNT := SALE_COUNT db + 1\<rparr>)"
proof (cases "sqlite_integer (in_product_id spayload) \<and> sqlite_integer (in_quantity spayload)")
  case False
  then show ?thesis
    by (simp add: create_sale_def split: option.splits sum.splits)
next
  case True
  show ?thesis
  proof (cases "find (\<lambda>p. p_id p = in_product_id spayload) (products db)")
    case None
    then show ?thesis using True by (simp add: create_sale_def)
  next
    case (Some product)
    then have mem: "product \<in> set (products db)" by (simp add: find_Some_mem)
    show ?thesis
    proof (cases "float_mul_int (p_price product) (in_quantity spayload)")
      case (Inl err)
      then show ?thesis using Some True by (simp add: create_sale_def)
    next
      case (Inr tot)
      have "snd (create_sale spayload clk db) =
               db\<lparr>sales := sales db @
                      [\<lparr>s_id = next_id (map s_id (sales db)), s_product_id = p_id product,
                        s_quantity = in_quantity spayload, s_total = tot,
                        s_created_at = utcnow clk\<rparr>],
                  SALE_COUNT := SALE_COUNT db + 1\<rparr>"
        using Some Inr True by (simp add: create_sale_def Let_def)
      then show ?thesis using mem Inr by blast
    qed
  qed
qed

lemma sale_ok_append: "sale_ok ps s \<Longrightarrow> sale_ok (ps @ qs) s"
  unfolding sale_ok_def by auto

lemma reachable_sale_ok: "reachable db \<Longrightarrow> list_all (sale_ok (products db)) (sales db)"
proof (induction rule: reachable.induct)
  case reach_empty
  then show ?case by (simp add: empty_state_def)
next
  case (reach_create_product db payload clk)
  from create_product_state [of payload clk db] show ?case
  proof
    assume "snd (create_product payload clk db) = db"
    then show ?thesis using reach_create_product.IH by simp
  next
    assume "\<exists>p. snd (create_product payload clk db) = db\<lparr>products := products db @ [p]\<rparr>"
    then obtain p where "snd (create_product payload clk db) = db\<lparr>products := products db @ [p]\<rparr>"
      by blast
    then show ?thesis using reach_create_product.IH
      by (simp add: list_all_iff sale_ok_append)
  qed
next
  case (reach_create_sale db spayload clk)
  from create_sale_state [of spayload clk db] show ?case
  proof
    assume "snd (create_sale spayload clk db) = db"
    then show ?thesis using reach_create_sale.IH by simp
  next
    assume "\<exists>product tot. product \<in> set (products db)
         \<and> float_mul_int (p_price product) (in_quantity spayload) = Inr tot
         \<and> snd (create_sale spayload clk db) =
             db\<lparr>sales := sales db @
                    [\<lparr>s_id = next_id (map s_id (sales db)), s_product_id = p_id product,
                      s_quantity = in_quantity spayload, s_total = tot,
                      s_created_at = utcnow clk\<rparr>],
                SALE_COUNT := SALE_COUNT db + 1\<rparr>"
    then obtain product tot where pt: "product \<in> set (products db)"
        "float_mul_int (p_price product) (in_quantity spayload) = Inr tot"
        "snd (create_sale spayload clk db) =
             db\<lparr>sales := sales db @
                    [\<lparr>s_id = next_id (map s_id (sales db)), s_product_id = p_id product,
                      s_quantity = in_quantity spayload, s_total = tot,
                      s_created_at = utcnow clk\<rparr>],
                SALE_COUNT := SALE_COUNT db + 1\<rparr>"
      by blast
    have "sale_ok (products db) \<lparr>s_id = next_id (map s_id (sales db)), s_product_id = p_id product,
                      s_quantity = in_quantity spayload, s_total = tot,
                      s_created_at = utcnow clk\<rparr>"
      unfolding sale_ok_def using pt(1,2) by (intro bexI [of _ product]) simp_all
    then show ?thesis using reach_create_sale.IH by (simp add: pt(3))
  qed
next
  case (reach_list_products db)
  then show ?case by (simp add: list_products_def)
next
  case (reach_list_sales db)
  then show ?case by (simp add: list_sales_def)
next
  case (reach_daily_report db py fetch d_opt clk)
  then show ?case by (simp add: daily_report_def Let_def)
qed

lemma sorted_wrt_less_distinct: "sorted_wrt (<) (xs::int list) \<Longrightarrow> distinct xs"
  by (induction xs) auto

lemma distinct_key_unique:
  assumes "distinct (map f xs)" and "x \<in> set xs" and "y \<in> set xs" and "f x = f y"
  shows "x = y"
  using assms by (induction xs) (auto simp: image_iff)

lemma apple_sale_store_eq:
  "apple_sale_store =
     \<lparr>products = [\<lparr>p_id = 1, p_name = ''Apple'', p_price = one_and_a_half,
                    p_created_at = utcnow late_clock\<rparr>],
      sales = [\<lparr>s_id = 1, s_product_id = 1, s_quantity = 4,
                 s_total = Finite False 6755399441055744 (- 50),
                 s_created_at = utcnow late_clock\<rparr>],
      SALE_COUNT = 1\<rparr>"
proof -
  have m: "float_mul_int one_and_a_half 4 = Inr (Finite False 6755399441055744 (- 50))"
    by (simp add: one_and_a_half_def float_eval)
  show ?thesis
    by (simp add: apple_sale_store_def create_product_def create_sale_def empty_state_def m
        sqlite_integer_def Let_def)
qed

text \<open>
  C5. In every state reached from the empty store by the five handlers, each sale of the
  sales table refers to a product of the product table, and its total is the float
  product of that product's price and the sale's quantity.
\<close>

theorem reachable_sales_reference_products:
  assumes "reachable db"
  shows "\<forall>s\<in>set (sales db).
      (\<exists>p\<in>set (products db). p_id p = s_product_id s)
      \<and> (\<forall>p\<in>set (products db). p_id p = s_product_id s
            \<longrightarrow> float_mul_int (p_price p) (s_quantity s) = Inr (s_total s))"
proof
  fix s assume s: "s \<in> set (sales db)"
  have "sale_ok (products db) s"
    using reachable_sale_ok [OF assms] s by (simp add: list_all_iff)
  then obtain p where p: "p \<in> set (products db)" "p_id p = s_product_id s"
      "float_mul_int (p_price p) (s_quantity s) = Inr (s_total s)"
    unfolding sale_ok_def by blast
  have d: "distinct (map p_id (products db))"
    using reachable_ids_increasing [OF assms] by (rule sorted_wrt_less_distinct)
  have same: "p' = p" if "p' \<in> set (products db)" "p_id p' = s_product_id s" for p'
    using distinct_key_unique [OF d that(1) p(1)] that(2) p(2) by simp
  have "\<exists>p\<in>set (products db). p_id p = s_product_id s" using p(1,2) by blast
  moreover have "\<forall>p\<in>set (products db). p_id p = s_product_id s
            \<longrightarrow> float_mul_int (p_price p) (s_quantity s) = Inr (s_total s)"
    using same p(3) by blast
  ultimately show "(\<exists>p\<in>set (products db). p_id p = s_product_id s)
      \<and> (\<forall>p\<in>set (products db). p_id p = s_product_id s
            \<longrightarrow> float_mul_int (p_price p) (s_quantity s) = Inr (s_total s))"
    by (rule conjI)
qed

theorem reachable_sales_reference_products_witness:
  "reachable apple_sale_store
   \<and> (\<exists>s p. sales apple_sale_store = [s] \<and> products apple_sale_store = [p]
        \<and> p_id p = s_product_id s \<and> s_quantity s = 4 \<and> p_price p = one_and_a_half
        \<and> s_total s = Finite False 6755399441055744 (- 50)
        \<and> float_mul_int (p_price p) (s_quantity s) = Inr (s_total s))"
proof -
  have r: "reachable apple_sale_store"
    unfolding apple_sale_store_def
    by (rule reach_create_sale [OF reach_create_product [OF reach_empty]])
  show ?thesis
    using reachable_sales_reference_products [OF r] r by (simp add: apple_sale_store_eq)
qed

text \<open>
  Two more invariants of the reachable states: no two products share a name, and the
  \<^verbatim>\<open>sales_total\<close> counter is the number of sales.
\<close>

lemma reachable_names_distinct: "reachable db \<Longrightarrow> distinct (map p_name (products db))"
proof (induction rule: reachable.induct)
  case reach_empty
  then show ?case by (simp add: empty_state_def)
next
  case (reach_create_product db payload clk)
  show ?case
  proof (cases "find (\<lambda>p. p_name p = in_name payload) (products db)")
    case None
    then have "in_name payload \<notin> p_name ` set (products db)"
      by (auto simp: find_None_iff_all)
    then show ?thesis using None reach_create_product.IH
      by (simp add: create_product_def Let_def)
  next
    case (Some exists)
    then show ?thesis using reach_create_product.IH by (simp add: create_product_def)
  qed
next
  case (reach_create_sale db spayload clk)
  from create_sale_state [of spayload clk db] show ?case
    using reach_create_sale.IH by auto
next
  case (reach_list_products db)
  then show ?case by (simp add: list_products_def)
next
  case (reach_list_sales db)
  then show ?case by (simp add: list_sales_def)
next
  case (reach_daily_report db py fetch d_opt clk)
  then show ?case by (simp add: daily_report_def Let_def)
qed

lemma reachable_sale_count: "reachable db \<Longrightarrow> SALE_COUNT db = length (sales db)"
proof (induction rule: reachable.induct)
  case reach_empty
  then show ?case by (simp add: empty_state_def)
next
  case (reach_create_product db payload clk)
  from create_product_state [of payload clk db] show ?case
    using reach_create_product.IH by auto
next
  case (reach_create_sale db spayload clk)
  from create_sale_state [of spayload clk db] show ?case
    using reach_create_sale.IH by auto
next
  case (reach_list_products db)
  then show ?case by (simp add: list_products_def)
next
  case (reach_list_sales db)
  then show ?case by (simp add: list_sales_def)
next
  case (reach_daily_report db py fetch d_opt clk)
  then show ?case by (simp add: daily_report_def Let_def)
qed

subsection \<open>The daily report\<close>

lemma daily_query_on_day:
  assumes "list_all (\<lambda>s. valid_time (dt_time (s_created_at s))) (sales db)"
  shows "daily_query d db = filter (\<lambda>s. dt_date (s_created_at s) = d) (sales db)"
  unfolding daily_query_def Let_def
  using assms by (intro filter_cong refl) (simp add: list_all_iff day_interval_iff)

lemma sum_list_map_mset:
  fixes f :: "'a \<Rightarrow> int"
  assumes "mset xs = mset ys"
  shows "sum_list (map f xs) = sum_list (map f ys)"
proof -
  have "sum_list (map f xs) = sum_mset (image_mset f (mset xs))"
    by (simp flip: sum_mset_sum_list)
  also have "\<dots> = sum_mset (image_mset f (mset ys))" by (simp only: assms)
  also have "\<dots> = sum_list (map f ys)" by (simp flip: sum_mset_sum_list)
  finally show ?thesis .
qed

lemma py_sum_float_Nil: "py_sum_float py [] = Finite False 0 (- 1074)"
  by (cases py) (simp_all add: float_zero_def)

lemma index_scan_mset: "mset (index_scan xs) = mset xs"
  by (simp add: index_scan_def)

lemma table_scan_mset: "mset (table_scan xs) = mset xs"
  by (simp add: table_scan_def)

text \<open>
  C2. \<open>daily_report\<close> for a given day never fails and never writes, whatever the
  interpreter's \<open>sum\<close> and whatever the order in which the store returns the selected
  rows, each of them once. The rows are exactly the sales whose creation time lies
  between 00:00:00.000000 and 23:59:59.999999 of that day, both ends included, the
  timestamps compared as they are stored. The revenue is the interpreter's sum of their
  totals, taken in the order the store returns them, and the item count is the sum of
  their quantities. Both are zero when no sale lies there. When the timestamps of the
  store are well-formed these sales are the ones whose date is that day, so a sale of the
  next day, however early, is left out.
\<close>

theorem daily_report_sums_sales_of_day:
  assumes "\<And>xs. mset (fetch xs) = mset xs"
  shows
  "let lo = \<lparr>dt_date = d, dt_time = \<lparr>hour = 0, minute = 0, second = 0, microsecond = 0\<rparr>\<rparr>;
       hi = \<lparr>dt_date = d,
             dt_time = \<lparr>hour = 23, minute = 59, second = 59, microsecond = 999999\<rparr>\<rparr>;
       rows = filter (\<lambda>s. datetime_le lo (s_created_at s) \<and> datetime_le (s_created_at s) hi)
                (sales db)
   in daily_report py fetch (Some d) clk db =
        (Inr \<lparr>r_date = d, total_revenue = py_sum_float py (map s_total (fetch rows)),
              total_items = sum_list (map s_quantity rows)\<rparr>, db)
      \<and> mset (fetch rows) = mset rows
      \<and> (rows = [] \<longrightarrow>
            daily_report py fetch (Some d) clk db =
              (Inr \<lparr>r_date = d, total_revenue = Finite False 0 (- 1074), total_items = 0\<rparr>, db))
      \<and> ((\<forall>s\<in>set (sales db). valid_time (dt_time (s_created_at s))) \<longrightarrow>
            rows = filter (\<lambda>s. dt_date (s_created_at s) = d) (sales db))"
proof -
  let ?lo = "\<lparr>dt_date = d, dt_time = \<lparr>hour = 0, minute = 0, second = 0, microsecond = 0\<rparr>\<rparr>"
  let ?hi = "\<lparr>dt_date = d,
             dt_time = \<lparr>hour = 23, minute = 59, second = 59, microsecond = 999999\<rparr>\<rparr>"
  let ?rows = "filter (\<lambda>s. datetime_le ?lo (s_created_at s) \<and> datetime_le (s_created_at s) ?hi)
                (sales db)"
  have q: "daily_query d db = ?rows"
    by (simp add: daily_query_def datetime_combine_def datetime_min_time_def
        datetime_max_time_def)
  have perm: "mset (fetch ?rows) = mset ?rows" by (rule assms)
  have items: "sum_list (map s_quantity (fetch ?rows)) = sum_list (map s_quantity ?rows)"
    using perm by (rule sum_list_map_mset)
  have run: "daily_report py fetch (Some d) clk db =
        (Inr \<lparr>r_date = d, total_revenue = py_sum_float py (map s_total (fetch ?rows)),
              total_items = sum_list (map s_quantity ?rows)\<rparr>, db)"
    by (simp add: daily_report_def Let_def q items)
  have empty: "daily_report py fetch (Some d) clk db =
      (Inr \<lparr>r_date = d, total_revenue = Finite False 0 (- 1074), total_items = 0\<rparr>, db)"
    if "?rows = []"
  proof -
    have "mset (fetch []) = {#}" using assms [of "[]"] by simp
    then have "fetch [] = []" by simp
    then show ?thesis unfolding run that by (simp add: py_sum_float_Nil)
  qed
  have day: "?rows = filter (\<lambda>s. dt_date (s_created_at s) = d) (sales db)"
    if "\<forall>s\<in>set (sales db). valid_time (dt_time (s_created_at s))"
    using daily_query_on_day [of db d] that unfolding q by (simp add: list_all_iff)
  show ?thesis unfolding Let_def using run perm empty day by blast
qed

text \<open>
  The order and the interpreter both show in the revenue: 0.3 + 0.2 + 0.1 is 0.6 and
  0.1 + 0.2 + 0.3 is 0.6000000000000001 from left to right, and 0.6 when compensated.
\<close>

lemma sum_index_order:
  "py_sum_float CPython_upto_3_11
     [Finite False 5404319552844595 (- 54), Finite False 7205759403792794 (- 55),
      Finite False 7205759403792794 (- 56)]
   = Finite False 5404319552844595 (- 53)"
  by (simp add: float_eval)

lemma sum_table_order:
  "py_sum_float CPython_upto_3_11
     [Finite False 7205759403792794 (- 56), Finite False 7205759403792794 (- 55),
      Finite False 5404319552844595 (- 54)]
   = Finite False 5404319552844596 (- 53)"
  by (simp add: float_eval)

lemma sum_table_order_compensated:
  "py_sum_float CPython_from_3_12
     [Finite False 7205759403792794 (- 56), Finite False 7205759403792794 (- 55),
      Finite False 5404319552844595 (- 54)]
   = Finite False 5404319552844595 (- 53)"
  by (simp add: float_eval)

lemma order_store_rows:
  "filter (\<lambda>s. dt_date (s_created_at s) = march_1) (sales order_store) =
     [sale_at 1 1 (Finite False 7205759403792794 (- 56)) march_1
        \<lparr>hour = 23, minute = 59, second = 59, microsecond = 999999\<rparr>,
      sale_at 2 2 (Finite False 7205759403792794 (- 55)) march_1
        \<lparr>hour = 12, minute = 0, second = 0, microsecond = 0\<rparr>,
      sale_at 3 3 (Finite False 5404319552844595 (- 54)) march_1
        \<lparr>hour = 0, minute = 0, second = 0, microsecond = 0\<rparr>]"
  by (simp add: order_store_def sale_at_def march_1_def march_2_def)

theorem daily_report_sums_sales_of_day_witness:
  "list_all (\<lambda>s. valid_time (dt_time (s_created_at s))) (sales order_store)
   \<and> map s_id (filter (\<lambda>s. dt_date (s_created_at s) = march_1) (sales order_store)) = [1, 2, 3]
   \<and> map s_id (index_scan (filter (\<lambda>s. dt_date (s_created_at s) = march_1)
        (sales order_store))) = [3, 2, 1]
   \<and> daily_report CPython_upto_3_11 index_scan (Some march_1) late_clock order_store =
        (Inr \<lparr>r_date = march_1, total_revenue = Finite False 5404319552844595 (- 53),
              total_items = 6\<rparr>, order_store)
   \<and> daily_report CPython_upto_3_11 table_scan (Some march_1) late_clock order_store =
        (Inr \<lparr>r_date = march_1, total_revenue = Finite False 5404319552844596 (- 53),
              total_items = 6\<rparr>, order_store)
   \<and> daily_report CPython_from_3_12 table_scan (Some march_1) late_clock order_store =
        (Inr \<lparr>r_date = march_1, total_revenue = Finite False 5404319552844595 (- 53),
              total_items = 6\<rparr>, order_store)"
proof -
  let ?rows = "filter (\<lambda>s. dt_date (s_created_at s) = march_1) (sales order_store)"
  have v: "list_all (\<lambda>s. valid_time (dt_time (s_created_at s))) (sales order_store)"
    by (simp add: order_store_def sale_at_def valid_time_def)
  then have v': "\<forall>s\<in>set (sales order_store). valid_time (dt_time (s_created_at s))"
    by (simp only: list_all_iff)
  have i: "map s_id ?rows = [1, 2, 3]"
    and n: "map s_quantity ?rows = [1, 2, 3]"
    unfolding order_store_rows by (simp_all add: sale_at_def)
  have ix: "index_scan ?rows =
     [sale_at 3 3 (Finite False 5404319552844595 (- 54)) march_1
        \<lparr>hour = 0, minute = 0, second = 0, microsecond = 0\<rparr>,
      sale_at 2 2 (Finite False 7205759403792794 (- 55)) march_1
        \<lparr>hour = 12, minute = 0, second = 0, microsecond = 0\<rparr>,
      sale_at 1 1 (Finite False 7205759403792794 (- 56)) march_1
        \<lparr>hour = 23, minute = 59, second = 59, microsecond = 999999\<rparr>]"
    unfolding order_store_rows
    by (simp add: index_scan_def sale_at_def datetime_key_def date_key_def time_key_def)
  have ti: "map s_total (index_scan ?rows) =
      [Finite False 5404319552844595 (- 54), Finite False 7205759403792794 (- 55),
       Finite False 7205759403792794 (- 56)]"
    and ii: "map s_id (index_scan ?rows) = [3, 2, 1]"
    unfolding ix by (simp_all add: sale_at_def)
  have tt: "map s_total (table_scan ?rows) =
      [Finite False 7205759403792794 (- 56), Finite False 7205759403792794 (- 55),
       Finite False 5404319552844595 (- 54)]"
    unfolding order_store_rows by (simp add: table_scan_def sale_at_def)
  note a = daily_report_sums_sales_of_day [of index_scan march_1 order_store
      CPython_upto_3_11 late_clock, OF index_scan_mset, unfolded Let_def]
  note b = daily_report_sums_sales_of_day [of table_scan march_1 order_store
      CPython_upto_3_11 late_clock, OF table_scan_mset, unfolded Let_def]
  note c = daily_report_sums_sales_of_day [of table_scan march_1 order_store
      CPython_from_3_12 late_clock, OF table_scan_mset, unfolded Let_def]
  note day = a [THEN conjunct2, THEN conjunct2, THEN conjunct2, THEN mp, OF v']
  have ra: "daily_report CPython_upto_3_11 index_scan (Some march_1) late_clock order_store =
        (Inr \<lparr>r_date = march_1, total_revenue = Finite False 5404319552844595 (- 53),
              total_items = 6\<rparr>, order_store)"
    unfolding a [THEN conjunct1] day ti n sum_index_order by simp
  have rb: "daily_report CPython_upto_3_11 table_scan (Some march_1) late_clock order_store =
        (Inr \<lparr>r_date = march_1, total_revenue = Finite False 5404319552844596 (- 53),
              total_items = 6\<rparr>, order_store)"
    unfolding b [THEN conjunct1] day tt n sum_table_order by simp
  have rc: "daily_report CPython_from_3_12 table_scan (Some march_1) late_clock order_store =
        (Inr \<lparr>r_date = march_1, total_revenue = Finite False 5404319552844595 (- 53),
              total_items = 6\<rparr>, order_store)"
    unfolding c [THEN conjunct1] day tt n sum_table_order_compensated by simp
  show ?thesis using v i ii ra rb rc by (intro conjI)
qed

lemma late_sale_created:
  "create_sale \<lparr>in_product_id = 1, in_quantity = 4\<rparr> late_clock apple_store
     = (Inr late_sale, apple_store\<lparr>sales := [late_sale], SALE_COUNT := 1\<rparr>)"
proof -
  have m: "float_mul_int one_and_a_half 4 = Inr (Finite False 6755399441055744 (- 50))"
    by (simp add: one_and_a_half_def float_eval)
  show ?thesis
    by (simp add: create_sale_def apple_store_def apple_def late_sale_def m sqlite_integer_def
        Let_def)
qed

text \<open>
  C6. The creation time of a sale (and of a product) is the UTC clock's
  \<^verbatim>\<open>datetime.utcnow()\<close>; \<open>daily_report\<close> without a day reports the local clock's
  \<^verbatim>\<open>date.today()\<close>. So a sale made and reported under one reading of the clock is among
  the sales the report selects exactly when the date of the UTC reading is the local date.
\<close>

theorem sale_in_default_report_iff_utc_date_is_today:
  assumes "create_sale payload clk db = (Inr s, db')"
    and "valid_time (dt_time (utcnow clk))"
  shows "s_created_at s = utcnow clk \<and> s \<in> set (sales db')
     \<and> daily_report py fetch None clk db' =
          (Inr \<lparr>r_date = today clk,
                total_revenue =
                  py_sum_float py (map s_total (fetch (daily_query (today clk) db'))),
                total_items = sum_list (map s_quantity (fetch (daily_query (today clk) db')))\<rparr>,
           db')
     \<and> (s \<in> set (daily_query (today clk) db') \<longleftrightarrow> dt_date (utcnow clk) = today clk)
     \<and> (\<forall>pp p db''. create_product pp clk db = (Inr p, db'') \<longrightarrow> p_created_at p = utcnow clk)"
proof -
  have s: "s_created_at s = utcnow clk \<and> s \<in> set (sales db')"
    using assms(1)
    by (auto simp: create_sale_def Let_def split: option.splits sum.splits if_splits)
  have r: "daily_report py fetch None clk db' =
          (Inr \<lparr>r_date = today clk,
                total_revenue =
                  py_sum_float py (map s_total (fetch (daily_query (today clk) db'))),
                total_items = sum_list (map s_quantity (fetch (daily_query (today clk) db')))\<rparr>,
           db')"
    by (simp add: daily_report_def Let_def)
  have "s \<in> set (daily_query (today clk) db') \<longleftrightarrow>
      datetime_le (datetime_combine (today clk) datetime_min_time) (s_created_at s)
      \<and> datetime_le (s_created_at s) (datetime_combine (today clk) datetime_max_time)"
    using s by (simp add: daily_query_def Let_def)
  also have "\<dots> \<longleftrightarrow> dt_date (utcnow clk) = today clk"
    using day_interval_iff [of "s_created_at s" "today clk"] assms(2) s by simp
  finally have q: "s \<in> set (daily_query (today clk) db') \<longleftrightarrow> dt_date (utcnow clk) = today clk" .
  have p: "\<forall>pp p db''. create_product pp clk db = (Inr p, db'') \<longrightarrow> p_created_at p = utcnow clk"
    by (auto simp: create_product_def Let_def split: option.splits)
  show ?thesis using s r q p by blast
qed

theorem sale_in_default_report_iff_utc_date_is_today_witness:
  "create_sale \<lparr>in_product_id = 1, in_quantity = 4\<rparr> late_clock apple_store
     = (Inr late_sale, apple_store\<lparr>sales := [late_sale], SALE_COUNT := 1\<rparr>)
   \<and> valid_time (dt_time (utcnow late_clock))
   \<and> dt_date (utcnow late_clock) \<noteq> today late_clock
   \<and> late_sale \<notin> set (daily_query (today late_clock)
          (apple_store\<lparr>sales := [late_sale], SALE_COUNT := 1\<rparr>))
   \<and> fst (daily_report CPython_from_3_12 index_scan None late_clock
            (apple_store\<lparr>sales := [late_sale], SALE_COUNT := 1\<rparr>))
       = Inr \<lparr>r_date = today late_clock, total_revenue = Finite False 0 (- 1074),
              total_items = 0\<rparr>"
proof -
  have v: "valid_time (dt_time (utcnow late_clock))"
    by (simp add: late_clock_def valid_time_def)
  have d: "dt_date (utcnow late_clock) \<noteq> today late_clock"
    by (simp add: late_clock_def)
  note th = sale_in_default_report_iff_utc_date_is_today [OF late_sale_created v,
      of CPython_from_3_12 index_scan]
  have out: "late_sale \<notin> set (daily_query (today late_clock)
          (apple_store\<lparr>sales := [late_sale], SALE_COUNT := 1\<rparr>))"
    using th d by blast
  then have e: "daily_query (today late_clock)
          (apple_store\<lparr>sales := [late_sale], SALE_COUNT := 1\<rparr>) = []"
    by (simp add: daily_query_def Let_def split: if_splits)
  have "fst (daily_report CPython_from_3_12 index_scan None late_clock
            (apple_store\<lparr>sales := [late_sale], SALE_COUNT := 1\<rparr>))
       = Inr \<lparr>r_date = today late_clock, total_revenue = Finite False 0 (- 1074),
              total_items = 0\<rparr>"
    using th [THEN conjunct2, THEN conjunct2, THEN conjunct1] unfolding e
    by (simp add: index_scan_def float_zero_def)
  then show ?thesis using late_sale_created v d out by (intro conjI)
qed

end
